theory Spec2Isabelle
  imports Main
begin

section \<open>The user list model of usermodel.cpp\<close>

text \<open>
  A shallow embedding of \<^verbatim>\<open>src/usermodel.cpp\<close>: the cache of user accounts
  (\<^verbatim>\<open>m_users\<close>), its uid-to-row index (\<^verbatim>\<open>m_uidsToRows\<close>), the slots that
  react to user intent, to replies of asynchronous D-Bus calls and to broadcasts of the
  user manager daemon, and the error classifier \<^verbatim>\<open>getErrorType\<close>. The slots for the
  current user and for group membership insert and remove no row and change no name, no
  validity and no index entry; they are left out.

  Rows and columns are \<^verbatim>\<open>int\<close> in the source and \<^typ>\<open>int\<close> here; uids are
  \<^verbatim>\<open>uint\<close> and \<^typ>\<open>nat\<close> here (no arithmetic is done on them). Signals the model
  emits and D-Bus calls it issues are appended to two logs of the state, in the order
  the source emits and issues them.
\<close>

subsection \<open>Errors of the bus and their classification\<close>

text \<open>
  \<^verbatim>\<open>UserModel::ErrorType\<close>: the enumerators that usermodel.cpp names. Their
  numeric values are declared in usermodel.h, which is not among the sources, so they
  are a parameter (\<open>errorValue\<close> below), as are the error names of
  sailfishusermanagerinterface.h (\<open>errorName\<close>) and the numeric value of
  \<^verbatim>\<open>QDBusError::Other\<close> (\<open>dbusOther\<close>).
\<close>

datatype ErrorType =
    Busy
  | HomeCreateFailed
  | HomeRemoveFailed
  | GroupCreateFailed
  | UserAddFailed
  | UserModifyFailed
  | UserRemoveFailed
  | GetUidFailed
  | UserNotFound
  | AddToGroupFailed
  | RemoveFromGroupFailed
  | OtherError
  | Failure

record ErrorEnv =
  dbusOther :: int
  errorName :: "ErrorType \<Rightarrow> string"
  errorValue :: "ErrorType \<Rightarrow> int"

text \<open>A \<^verbatim>\<open>QDBusError\<close>: its \<^verbatim>\<open>type()\<close> (as the integer of the enumerator) and
  its \<^verbatim>\<open>name()\<close>.\<close>

record QDBusError =
  errType :: int
  errName :: string

text \<open>The eleven entries of the initializer list of \<^verbatim>\<open>errorTypeMap\<close>, in the
  order of the source.\<close>

definition errorTypeEntries :: "ErrorType list" where
  "errorTypeEntries =
     [Busy, HomeCreateFailed, HomeRemoveFailed, GroupCreateFailed, UserAddFailed,
      UserModifyFailed, UserRemoveFailed, GetUidFailed, UserNotFound, AddToGroupFailed,
      RemoveFromGroupFailed]"

text \<open>\<^verbatim>\<open>QHash\<close> built from an initializer list inserts the pairs one after the
  other; an insert under a key that is present replaces its value.\<close>

definition errorTypeMap :: "ErrorEnv \<Rightarrow> string \<rightharpoonup> int" where
  "errorTypeMap env =
     fold (\<lambda>k m. m(errorName env k \<mapsto> errorValue env k)) errorTypeEntries Map.empty"

definition getErrorType :: "ErrorEnv \<Rightarrow> QDBusError \<Rightarrow> int" where
  "getErrorType env error =
     (if errType error \<noteq> dbusOther env then errType error
      else (case errorTypeMap env (errName error) of
              Some v \<Rightarrow> v
            | None \<Rightarrow> errorValue env OtherError))"

subsection \<open>Account records\<close>

text \<open>
  What the system's identity lookup (\<^verbatim>\<open>getpwuid\<close>) knows of a uid: the login name,
  the real name and the account type. The lookup is a parameter of the model: a uid
  it does not know has no entry.
\<close>

record OsEntry =
  pwUsername :: string
  pwName :: string
  pwType :: nat

type_synonym OsLookup = "nat \<Rightarrow> OsEntry option"

text \<open>
  Modelled from the spec: the class \<^verbatim>\<open>UserInfo\<close> (userinfo.cpp and userinfo.h are
  not among the sources). The spec's account record is
  \<open>{uid, username, display name, type, isCurrent, isValid}\<close>; a record is invalid
  when it is the placeholder or when the lookup that built it found no account.
  The \<open>uid\<close> of an invalid record is unassigned: usermodel.cpp reads \<^verbatim>\<open>uid()\<close>
  only under \<^verbatim>\<open>isValid()\<close> when it mutates the cache.
\<close>

record UserInfo =
  uid :: nat
  username :: string
  name :: string
  userType :: nat
  current :: bool
  isValid :: bool

text \<open>Modelled from the spec: \<^verbatim>\<open>UserInfo::placeholder()\<close>, the uncommitted new
  user: invalid, no uid assigned, every text field empty.\<close>

definition UserInfo_placeholder :: UserInfo where
  "UserInfo_placeholder =
     \<lparr>uid = 0, username = [], name = [], userType = 0, current = False, isValid = False\<rparr>"

text \<open>Modelled from the spec: \<^verbatim>\<open>UserInfo(uid)\<close>, "construct a record from the uid
  (querying the OS for authoritative fields)". The record is valid exactly when the
  lookup knows the uid.\<close>

definition UserInfo_uid :: "OsLookup \<Rightarrow> nat \<Rightarrow> UserInfo" where
  "UserInfo_uid os u =
     (case os u of
        Some e \<Rightarrow> \<lparr>uid = u, username = pwUsername e, name = pwName e, userType = pwType e,
                   current = False, isValid = True\<rparr>
      | None \<Rightarrow> UserInfo_placeholder\<lparr>uid := u\<rparr>)"

text \<open>Modelled from the spec: \<^verbatim>\<open>UserInfo::setName\<close>, the local (optimistic) edit of
  the name.\<close>

definition setName :: "string \<Rightarrow> UserInfo \<Rightarrow> UserInfo" where
  "setName nm user = user\<lparr>name := nm\<rparr>"

text \<open>Modelled from the spec: \<^verbatim>\<open>UserInfo::reset\<close> "restores a row's local mutable
  fields from the authoritative OS identity lookup, discarding any optimistic edit",
  and on the placeholder clears "the placeholder's transient name field back to
  empty"; it "only clears the name field on a row, not its identity".\<close>

definition UserInfo_reset :: "OsLookup \<Rightarrow> UserInfo \<Rightarrow> UserInfo" where
  "UserInfo_reset os user =
     (if isValid user
      then (case os (uid user) of
              Some e \<Rightarrow> user\<lparr>name := pwName e\<rparr>
            | None \<Rightarrow> user\<lparr>name := []\<rparr>)
      else user\<lparr>name := []\<rparr>)"

subsection \<open>Roles, signals, calls and replies\<close>

text \<open>The roles of \<^verbatim>\<open>roleNames()\<close>; \<open>UnknownRole\<close> stands for every other
  integer a caller may pass as role.\<close>

datatype Role =
    DisplayRole
  | UsernameRole
  | NameRole
  | TypeRole
  | UidRole
  | CurrentRole
  | PlaceholderRole
  | UnknownRole int

text \<open>A \<^verbatim>\<open>QModelIndex\<close> as (row, column); the invalid index \<^verbatim>\<open>QModelIndex()\<close> has
  row and column -1.\<close>

type_synonym QModelIndex = "int \<times> int"

definition invalidIndex :: QModelIndex where
  "invalidIndex = (- 1, - 1)"

text \<open>The signals that the slots modelled here emit. \<open>RowsInserted\<close> and
  \<open>RowsRemoved\<close> stand for a \<^verbatim>\<open>beginInsertRows/endInsertRows\<close> and a
  \<^verbatim>\<open>beginRemoveRows/endRemoveRows\<close> pair; the failure signals carry the row (but for
  add-user) and the classified error.\<close>

datatype Signal =
    RowsInserted int int
  | RowsRemoved int int
  | PlaceholderChanged
  | DataChanged QModelIndex QModelIndex "Role list"
  | UserAddFailedSignal int
  | UserModifyFailedSignal int int
  | UserRemoveFailedSignal int int

text \<open>The asynchronous calls that the slots modelled here issue, each with the arguments
  sent to the daemon and, for modify-user and remove-user, last the row that
  \<^verbatim>\<open>std::bind\<close> captures for the reply's slot.\<close>

datatype Call =
    AddUserCall string
  | ModifyUserCall nat string int
  | RemoveUserCall nat int

text \<open>A \<^verbatim>\<open>QDBusPendingReply\<close> once finished: an error, or the value of the reply.\<close>

datatype 'a Reply = ReplyError QDBusError | ReplyValue 'a

subsection \<open>The model's state\<close>

record UserModel =
  m_users :: "UserInfo list"
  m_uidsToRows :: "nat \<rightharpoonup> int"
  m_dBusInterface :: bool
  emitted :: "Signal list"
  issued :: "Call list"

definition emit :: "Signal \<Rightarrow> UserModel \<Rightarrow> UserModel" where
  "emit sig m = m\<lparr>emitted := emitted m @ [sig]\<rparr>"

definition asyncCall :: "Call \<Rightarrow> UserModel \<Rightarrow> UserModel" where
  "asyncCall c m = m\<lparr>issued := issued m @ [c]\<rparr>"

definition createInterface :: "UserModel \<Rightarrow> UserModel" where
  "createInterface m = (if \<not> m_dBusInterface m then m\<lparr>m_dBusInterface := True\<rparr> else m)"

text \<open>\<^verbatim>\<open>QVector::count()\<close>.\<close>

definition count :: "'a list \<Rightarrow> int" where
  "count xs = int (length xs)"

text \<open>\<^verbatim>\<open>QVector::insert(i, x)\<close> and \<^verbatim>\<open>QVector::remove(i)\<close> assert that the
  position is in range (\<open>0 \<le> i \<le> size\<close> and \<open>0 \<le> i < size\<close>); outside it their
  behaviour is undefined, which is the value \<open>None\<close> here.\<close>

definition qv_insert :: "int \<Rightarrow> 'a \<Rightarrow> 'a list \<Rightarrow> 'a list option" where
  "qv_insert i x xs =
     (if 0 \<le> i \<and> i \<le> count xs then Some (take (nat i) xs @ x # drop (nat i) xs) else None)"

definition qv_remove :: "int \<Rightarrow> 'a list \<Rightarrow> 'a list option" where
  "qv_remove i xs =
     (if 0 \<le> i \<and> i < count xs then Some (take (nat i) xs @ drop (Suc (nat i)) xs) else None)"

subsection \<open>The placeholder\<close>

definition placeholder :: "UserModel \<Rightarrow> bool" where
  "placeholder m =
     (if count (m_users m) = 0 then False else \<not> isValid (last (m_users m)))"

text \<open>\<^verbatim>\<open>setPlaceholder\<close>: the row it removes is \<open>count - 1\<close> of a list that
  \<open>placeholder\<close> has found non-empty, so the removal is in range.\<close>

definition setPlaceholder :: "bool \<Rightarrow> UserModel \<Rightarrow> UserModel" where
  "setPlaceholder v m =
     (if placeholder m = v then m
      else if v then
        (let row = count (m_users m)
         in emit PlaceholderChanged
              (emit (RowsInserted row row) (m\<lparr>m_users := m_users m @ [UserInfo_placeholder]\<rparr>)))
      else
        (let row = count (m_users m) - 1
         in emit PlaceholderChanged
              (emit (RowsRemoved row row)
                 (m\<lparr>m_users := take (nat row) (m_users m) @ drop (Suc (nat row)) (m_users m)\<rparr>))))"

subsection \<open>Indexes, reset and the slots of user intent\<close>

definition index :: "UserModel \<Rightarrow> int \<Rightarrow> int \<Rightarrow> QModelIndex" where
  "index m row column =
     (if row < 0 \<or> row \<ge> count (m_users m) \<or> column \<noteq> 0 then invalidIndex else (row, 0))"

definition reset :: "OsLookup \<Rightarrow> int \<Rightarrow> UserModel \<Rightarrow> UserModel" where
  "reset os row m =
     (if row < 0 \<or> row \<ge> count (m_users m) then m
      else
        (let m' = m\<lparr>m_users := (m_users m)[nat row := UserInfo_reset os (m_users m ! nat row)]\<rparr>;
             idx = index m' row 0
         in emit (DataChanged idx idx []) m'))"

text \<open>\<^verbatim>\<open>setData(index, value, role)\<close>: the index is its (row, column), the value is
  the string \<^verbatim>\<open>value.toString()\<close> yields. The result is the returned flag and the
  state.\<close>

definition setData :: "QModelIndex \<Rightarrow> string \<Rightarrow> Role \<Rightarrow> UserModel \<Rightarrow> bool \<times> UserModel" where
  "setData idx v role m =
     (if fst idx < 0 \<or> fst idx \<ge> count (m_users m) \<or> snd idx \<noteq> 0 then (False, m)
      else
        (let user = m_users m ! nat (fst idx)
         in case role of
              NameRole \<Rightarrow>
                (if v = [] \<or> v = name user then (False, m)
                 else
                   (let user' = setName v user;
                        m1 = m\<lparr>m_users := (m_users m)[nat (fst idx) := user']\<rparr>;
                        m2 = (if isValid user'
                              then asyncCall (ModifyUserCall (uid user') v (fst idx))
                                     (createInterface m1)
                              else m1)
                    in (True, emit (DataChanged idx idx [role]) m2)))
            | _ \<Rightarrow> (False, m)))"

definition createUser :: "UserModel \<Rightarrow> UserModel" where
  "createUser m =
     (if \<not> placeholder m then m
      else
        (let user = last (m_users m)
         in if name user = [] then m
            else asyncCall (AddUserCall (name user)) (createInterface m)))"

definition removeUser :: "int \<Rightarrow> UserModel \<Rightarrow> UserModel" where
  "removeUser row m =
     (if row < 0 \<or> row \<ge> count (m_users m) then m
      else
        (let user = m_users m ! nat row
         in if \<not> isValid user then m
            else asyncCall (RemoveUserCall (uid user) row) (createInterface m)))"

subsection \<open>Broadcasts of the daemon\<close>

text \<open>\<^verbatim>\<open>onUserAdded\<close>: the row of the insert is \<open>count - 1\<close> of a non-empty list or
  \<open>count\<close>, so the insert is in range.\<close>

definition onUserAdded :: "OsLookup \<Rightarrow> nat \<Rightarrow> UserModel \<Rightarrow> UserModel" where
  "onUserAdded os u m =
     (if m_uidsToRows m u \<noteq> None then m
      else
        (let user = UserInfo_uid os u
         in if isValid user then
              (let row = (if placeholder m then count (m_users m) - 1 else count (m_users m))
               in emit (RowsInserted row row)
                    (m\<lparr>m_users := take (nat row) (m_users m) @ user # drop (nat row) (m_users m),
                       m_uidsToRows := (m_uidsToRows m)(u \<mapsto> row)\<rparr>))
            else m))"

text \<open>\<^verbatim>\<open>onUserModified\<close>: the non-const \<^verbatim>\<open>m_users[row]\<close> asserts that the row
  it reads from the index is in range; out of range is the value \<open>None\<close>.\<close>

definition onUserModified :: "nat \<Rightarrow> string \<Rightarrow> UserModel \<Rightarrow> UserModel option" where
  "onUserModified u newName m =
     (case m_uidsToRows m u of
        None \<Rightarrow> Some m
      | Some row \<Rightarrow>
          (if 0 \<le> row \<and> row < count (m_users m) then
             (if name (m_users m ! nat row) \<noteq> newName then
                (let m' = m\<lparr>m_users := (m_users m)[nat row := setName newName (m_users m ! nat row)]\<rparr>;
                     idx = index m' row 0
                 in Some (emit (DataChanged idx idx [NameRole]) m'))
              else Some m)
           else None))"

text \<open>\<^verbatim>\<open>onUserRemoved\<close>: the loop over \<^verbatim>\<open>m_uidsToRows\<close> visits every entry once and
  changes only its value, so it is a map over the values.\<close>

definition onUserRemoved :: "nat \<Rightarrow> UserModel \<Rightarrow> UserModel option" where
  "onUserRemoved u m =
     (case m_uidsToRows m u of
        None \<Rightarrow> Some m
      | Some row \<Rightarrow>
          (case qv_remove row (m_users m) of
             None \<Rightarrow> None
           | Some us \<Rightarrow>
               Some (emit (RowsRemoved row row)
                 (m\<lparr>m_users := us,
                    m_uidsToRows :=
                      (\<lambda>k. map_option (\<lambda>v. if v > row then v - 1 else v)
                             (((m_uidsToRows m)(u := None)) k))\<rparr>))))"

subsection \<open>Replies of the asynchronous calls\<close>

definition userAddFinished ::
    "ErrorEnv \<Rightarrow> OsLookup \<Rightarrow> nat Reply \<Rightarrow> UserModel \<Rightarrow> UserModel option" where
  "userAddFinished env os reply m =
     (case reply of
        ReplyError error \<Rightarrow> Some (emit (UserAddFailedSignal (getErrorType env error)) m)
      | ReplyValue u \<Rightarrow>
          (if m_uidsToRows m u = None then
             (let row = count (m_users m) - 1
              in case qv_insert row (UserInfo_uid os u) (m_users m) of
                   None \<Rightarrow> None
                 | Some us \<Rightarrow>
                     (let m' = emit (RowsInserted row row)
                                 (m\<lparr>m_users := us, m_uidsToRows := (m_uidsToRows m)(u \<mapsto> row)\<rparr>)
                      in Some (reset os (count (m_users m') - 1) m')))
           else Some (reset os (count (m_users m) - 1) m)))"


definition userRemoveFinished :: "ErrorEnv \<Rightarrow> unit Reply \<Rightarrow> int \<Rightarrow> UserModel \<Rightarrow> UserModel" where
  "userRemoveFinished env reply row m =
     (case reply of
        ReplyError error \<Rightarrow> emit (UserRemoveFailedSignal row (getErrorType env error)) m
      | ReplyValue _ \<Rightarrow> m)"

subsection \<open>Sequences of broadcasts and the index invariant\<close>

text \<open>A user-added or user-removed broadcast. The identity lookup is read when a
  user-added broadcast is handled, so the broadcast carries the lookup as it is at that
  moment: accounts come and go between two broadcasts.\<close>

datatype Broadcast = UserAdded OsLookup nat | UserRemoved nat

fun deliver :: "Broadcast \<Rightarrow> UserModel \<Rightarrow> UserModel option" where
  "deliver (UserAdded os u) m = Some (onUserAdded os u m)"
| "deliver (UserRemoved u) m = onUserRemoved u m"

fun deliverAll :: "Broadcast list \<Rightarrow> UserModel \<Rightarrow> UserModel option" where
  "deliverAll [] m = Some m"
| "deliverAll (b # bs) m =
     (case deliver b m of None \<Rightarrow> None | Some m' \<Rightarrow> deliverAll bs m')"

text \<open>The index is the inverse of the rows, restricted to the valid rows: uid \<open>u\<close> is
  mapped to \<open>r\<close> exactly when \<open>r\<close> is a row of the list, the record there is valid and
  its uid is \<open>u\<close>. An invalid row (the placeholder) has no entry.\<close>

definition index_inv :: "UserModel \<Rightarrow> bool" where
  "index_inv m =
     (\<forall>u r. m_uidsToRows m u = Some r \<longleftrightarrow>
            (0 \<le> r \<and> r < count (m_users m) \<and> isValid (m_users m ! nat r)
             \<and> uid (m_users m ! nat r) = u))"

text \<open>Every row but the last is valid: the cache holds at most one invalid row, and an
  invalid row is the last row.\<close>

definition placeholder_inv :: "UserModel \<Rightarrow> bool" where
  "placeholder_inv m = (\<forall>i. Suc i < length (m_users m) \<longrightarrow> isValid (m_users m ! i))"

subsection \<open>A concrete environment\<close>

text \<open>An assignment of the parameters, used to evaluate the model on concrete inputs:
  eleven distinct error names, pairwise different values for the enumerators, and 1 for
  \<^verbatim>\<open>QDBusError::Other\<close>. The value of \<open>OtherError\<close> differs from 1, so that the
  classifier's catch-all can be told from an error code passed through.\<close>

fun exampleErrorName :: "ErrorType \<Rightarrow> string" where
  "exampleErrorName Busy = ''Busy''"
| "exampleErrorName HomeCreateFailed = ''HomeCreateFailed''"
| "exampleErrorName HomeRemoveFailed = ''HomeRemoveFailed''"
| "exampleErrorName GroupCreateFailed = ''GroupCreateFailed''"
| "exampleErrorName UserAddFailed = ''UserAddFailed''"
| "exampleErrorName UserModifyFailed = ''UserModifyFailed''"
| "exampleErrorName UserRemoveFailed = ''UserRemoveFailed''"
| "exampleErrorName GetUidFailed = ''GetUidFailed''"
| "exampleErrorName UserNotFound = ''UserNotFound''"
| "exampleErrorName AddToGroupFailed = ''AddToGroupFailed''"
| "exampleErrorName RemoveFromGroupFailed = ''RemoveFromGroupFailed''"
| "exampleErrorName OtherError = ''Other''"
| "exampleErrorName Failure = ''Failed''"

fun exampleErrorValue :: "ErrorType \<Rightarrow> int" where
  "exampleErrorValue Busy = 100"
| "exampleErrorValue HomeCreateFailed = 101"
| "exampleErrorValue HomeRemoveFailed = 102"
| "exampleErrorValue GroupCreateFailed = 103"
| "exampleErrorValue UserAddFailed = 104"
| "exampleErrorValue UserModifyFailed = 105"
| "exampleErrorValue UserRemoveFailed = 106"
| "exampleErrorValue GetUidFailed = 107"
| "exampleErrorValue UserNotFound = 108"
| "exampleErrorValue AddToGroupFailed = 109"
| "exampleErrorValue RemoveFromGroupFailed = 110"
| "exampleErrorValue OtherError = 99"
| "exampleErrorValue Failure = 2"

definition exampleEnv :: ErrorEnv where
  "exampleEnv = \<lparr>dbusOther = 1, errorName = exampleErrorName, errorValue = exampleErrorValue\<rparr>"

text \<open>Three accounts the identity lookup may know, and the cache of the spec's
  scenarios: alice (uid 1000) and bob (uid 1001), each at the row the index says.\<close>

definition alice :: UserInfo where
  "alice = \<lparr>uid = 1000, username = ''alice'', name = ''Alice'', userType = 0,
             current = False, isValid = True\<rparr>"

definition bob :: UserInfo where
  "bob = \<lparr>uid = 1001, username = ''bob'', name = ''Bob'', userType = 0,
           current = False, isValid = True\<rparr>"

definition carol :: UserInfo where
  "carol = \<lparr>uid = 1002, username = ''carol'', name = ''carol'', userType = 0,
             current = False, isValid = True\<rparr>"

definition exampleCache :: UserModel where
  "exampleCache =
     \<lparr>m_users = [alice, bob], m_uidsToRows = [1000 \<mapsto> 0, 1001 \<mapsto> 1],
      m_dBusInterface = False, emitted = [], issued = []\<rparr>"

definition exampleCache3 :: UserModel where
  "exampleCache3 =
     \<lparr>m_users = [alice, bob, carol], m_uidsToRows = [1000 \<mapsto> 0, 1001 \<mapsto> 1, 1002 \<mapsto> 2],
      m_dBusInterface = False, emitted = [], issued = []\<rparr>"

text \<open>The identity lookup before carol's account exists, and after.\<close>

definition exampleOs :: OsLookup where
  "exampleOs =
     [1000 \<mapsto> \<lparr>pwUsername = ''alice'', pwName = ''Alice'', pwType = 0\<rparr>,
      1001 \<mapsto> \<lparr>pwUsername = ''bob'', pwName = ''Bob'', pwType = 0\<rparr>]"

definition exampleOsCarol :: OsLookup where
  "exampleOsCarol = exampleOs(1002 \<mapsto> \<lparr>pwUsername = ''carol'', pwName = ''carol'', pwType = 0\<rparr>)"

text \<open>The cache after \<open>setPlaceholder(true)\<close> and after the placeholder's name has been
  set to "carol": alice, bob and the named placeholder.\<close>

definition exampleNamedPlaceholder :: UserModel where
  "exampleNamedPlaceholder =
     snd (setData (2, 0) ''carol'' NameRole (setPlaceholder True exampleCache))"

section \<open>Properties\<close>

subsection \<open>Inserting into and removing from a list\<close>

lemma nth_insert_gt:
  "i \<le> length xs \<Longrightarrow> (take i xs @ x # drop i xs) ! (i + Suc k) = xs ! (i + k)"
  by (simp add: nth_append)

lemma nth_insert_at:
  assumes il: "i \<le> length xs"
  shows "(take i xs @ x # drop i xs) ! j =
     (if j < i then xs ! j else if j = i then x else xs ! (j - 1))"
proof -
  consider "j < i" | "j = i" | "i < j" by linarith
  then show ?thesis
  proof cases
    case 1
    then show ?thesis using il by (simp add: nth_append)
  next
    case 2
    then show ?thesis using il by (simp add: nth_append)
  next
    case 3
    define k where "k = j - Suc i"
    have jk: "j = i + Suc k" using 3 by (simp add: k_def)
    show ?thesis unfolding jk using nth_insert_gt [OF il, of x k] by simp
  qed
qed

lemma nth_remove_at:
  "i < length xs \<Longrightarrow> Suc j < length xs \<Longrightarrow>
   (take i xs @ drop (Suc i) xs) ! j = (if j < i then xs ! j else xs ! Suc j)"
  by (auto simp: nth_append min_def)

lemma UserInfo_uid_valid: "isValid (UserInfo_uid os u) \<Longrightarrow> uid (UserInfo_uid os u) = u"
  by (auto simp: UserInfo_uid_def split: option.splits)

lemma placeholder_last:
  "placeholder m \<Longrightarrow> m_users m \<noteq> [] \<and> \<not> isValid (last (m_users m))"
  by (auto simp: placeholder_def count_def split: if_splits)

subsection \<open>The concrete caches\<close>

lemma exampleNamedPlaceholder_eq:
  "exampleNamedPlaceholder =
     \<lparr>m_users = [alice, bob, UserInfo_placeholder\<lparr>name := ''carol''\<rparr>],
      m_uidsToRows = [1000 \<mapsto> 0, 1001 \<mapsto> 1],
      m_dBusInterface = False,
      emitted = [RowsInserted 2 2, PlaceholderChanged, DataChanged (2, 0) (2, 0) [NameRole]],
      issued = []\<rparr>"
  by (simp add: exampleNamedPlaceholder_def setData_def setPlaceholder_def placeholder_def
      exampleCache_def count_def emit_def Let_def alice_def bob_def setName_def
      UserInfo_placeholder_def)

lemma exampleCache3_index_inv: "index_inv exampleCache3"
  unfolding index_inv_def
proof (intro allI iffI)
  fix u r
  assume "m_uidsToRows exampleCache3 u = Some r"
  then have "(u = 1000 \<and> r = 0) \<or> (u = 1001 \<and> r = 1) \<or> (u = 1002 \<and> r = 2)"
    by (auto simp: exampleCache3_def split: if_splits)
  then show "0 \<le> r \<and> r < count (m_users exampleCache3)
             \<and> isValid (m_users exampleCache3 ! nat r)
             \<and> uid (m_users exampleCache3 ! nat r) = u"
    by (auto simp: exampleCache3_def count_def alice_def bob_def carol_def)
next
  fix u r
  assume a: "0 \<le> r \<and> r < count (m_users exampleCache3)
             \<and> isValid (m_users exampleCache3 ! nat r)
             \<and> uid (m_users exampleCache3 ! nat r) = u"
  then have "r = 0 \<or> r = 1 \<or> r = 2"
    by (auto simp: exampleCache3_def count_def)
  with a show "m_uidsToRows exampleCache3 u = Some r"
    by (auto simp: exampleCache3_def alice_def bob_def carol_def)
qed

subsection \<open>The index under user-added and user-removed broadcasts\<close>

lemma onUserAdded_index_inv:
  assumes "index_inv m"
  shows "index_inv (onUserAdded os u m)"
proof (cases "m_uidsToRows m u \<noteq> None \<or> \<not> isValid (UserInfo_uid os u)")
  case True
  then show ?thesis using assms by (auto simp: onUserAdded_def Let_def)
next
  case False
  define L where "L = m_users m"
  define x where "x = UserInfo_uid os u"
  define i where "i = (if placeholder m then length L - 1 else length L)"
  define m' where "m' = emit (RowsInserted (int i) (int i))
        (m\<lparr>m_users := take i L @ x # drop i L, m_uidsToRows := (m_uidsToRows m)(u \<mapsto> int i)\<rparr>)"
  have fresh: "m_uidsToRows m u = None" and vx: "isValid x" and ux: "uid x = u"
    using False by (auto simp: x_def UserInfo_uid_valid)
  have row: "(if placeholder m then count (m_users m) - 1 else count (m_users m)) = int i"
    by (auto simp: i_def L_def count_def placeholder_def Suc_le_eq)
  have il: "i \<le> length L" by (simp add: i_def)
  have last_inv: "i < length L \<Longrightarrow> \<not> isValid (L ! i) \<and> Suc i = length L"
    by (auto simp: i_def placeholder_def L_def count_def last_conv_nth split: if_splits)
  have inv: "\<And>w r. m_uidsToRows m w = Some r \<longleftrightarrow>
      (0 \<le> r \<and> r < int (length L) \<and> isValid (L ! nat r) \<and> uid (L ! nat r) = w)"
    using assms by (simp add: index_inv_def L_def count_def)
  have res: "onUserAdded os u m = m'"
    using False row by (simp add: onUserAdded_def Let_def x_def L_def m'_def)
  have mu: "m_users m' = take i L @ x # drop i L"
    and mi: "m_uidsToRows m' = (m_uidsToRows m)(u \<mapsto> int i)"
    by (simp_all add: m'_def emit_def)
  have "index_inv m'"
    unfolding index_inv_def mu mi
  proof (intro allI)
    fix w r
    show "((m_uidsToRows m)(u \<mapsto> int i)) w = Some r \<longleftrightarrow>
       (0 \<le> r \<and> r < count (take i L @ x # drop i L)
        \<and> isValid ((take i L @ x # drop i L) ! nat r)
        \<and> uid ((take i L @ x # drop i L) ! nat r) = w)"
      (is "?lhs \<longleftrightarrow> ?rhs")
    proof
      assume l: ?lhs
      show ?rhs
      proof (cases "w = u")
        case True
        with l have "r = int i" by simp
        then show ?thesis using True il vx ux by (simp add: count_def nth_insert_at)
      next
        case False
        with l have "m_uidsToRows m w = Some r" by simp
        with inv have r: "0 \<le> r" "nat r < length L" "isValid (L ! nat r)" "uid (L ! nat r) = w"
          by auto
        have "nat r < i"
        proof (cases "i < length L")
          case True
          with last_inv have "\<not> isValid (L ! i)" "Suc i = length L" by auto
          with r have "nat r \<noteq> i" "nat r < Suc i" by auto
          then show ?thesis by linarith
        next
          case False
          with il r show ?thesis by simp
        qed
        then show ?thesis using r il by (simp add: count_def nth_insert_at)
      qed
    next
      assume rr: ?rhs
      then have r: "0 \<le> r" "nat r \<le> length L"
        and v: "isValid ((take i L @ x # drop i L) ! nat r)"
        and uu: "uid ((take i L @ x # drop i L) ! nat r) = w"
        by (auto simp: count_def)
      consider "nat r < i" | "nat r = i" | "nat r > i" by linarith
      then show ?lhs
      proof cases
        case 1
        with v uu il r have "isValid (L ! nat r)" "uid (L ! nat r) = w"
          by (simp_all add: nth_insert_at)
        with 1 il r have "m_uidsToRows m w = Some r" using inv [of w r] by simp
        moreover from this fresh have "w \<noteq> u" by auto
        ultimately show ?thesis by simp
      next
        case 2
        with uu il ux have "w = u" by (simp add: nth_insert_at)
        moreover from 2 r have "r = int i" by simp
        ultimately show ?thesis by simp
      next
        case 3
        with r il have "i < length L" by simp
        with last_inv have ni: "\<not> isValid (L ! i)" "Suc i = length L" by auto
        with 3 r have "nat r = Suc i" by simp
        moreover have "(take i L @ x # drop i L) ! Suc i = L ! i"
          using nth_insert_at [OF il, of x "Suc i"] by simp
        ultimately show ?thesis using v ni by simp
      qed
    qed
  qed
  with res show ?thesis by simp
qed

lemma onUserRemoved_index_inv:
  assumes "index_inv m"
  shows "\<exists>m'. onUserRemoved u m = Some m' \<and> index_inv m'"
proof (cases "m_uidsToRows m u")
  case None
  then show ?thesis using assms by (simp add: onUserRemoved_def)
next
  case (Some row)
  define L where "L = m_users m"
  have inv: "\<And>w r. m_uidsToRows m w = Some r \<longleftrightarrow>
      (0 \<le> r \<and> r < int (length L) \<and> isValid (L ! nat r) \<and> uid (L ! nat r) = w)"
    using assms by (simp add: index_inv_def L_def count_def)
  define i where "i = nat row"
  from Some inv have row: "0 \<le> row" "i < length L" "isValid (L ! i)" "uid (L ! i) = u"
    by (auto simp: i_def)
  have ri: "row = int i" using row by (simp add: i_def)
  have invn: "\<And>w j. m_uidsToRows m w = Some (int j) \<longleftrightarrow>
      (j < length L \<and> isValid (L ! j) \<and> uid (L ! j) = w)"
    using inv by simp
  define f where "f = (\<lambda>v::int. if v > row then v - 1 else v)"
  define idx' where "idx' = (\<lambda>k. map_option f (((m_uidsToRows m)(u := None)) k))"
  define L' where "L' = take i L @ drop (Suc i) L"
  define m' where "m' = emit (RowsRemoved row row) (m\<lparr>m_users := L', m_uidsToRows := idx'\<rparr>)"
  have res: "onUserRemoved u m = Some m'"
    using Some row
    by (simp add: onUserRemoved_def qv_remove_def count_def L_def i_def m'_def idx'_def f_def
        L'_def)
  have len: "Suc (length L') = length L"
    using row by (simp add: L'_def)
  have nth: "\<And>j. j < length L' \<Longrightarrow> L' ! j = (if j < i then L ! j else L ! Suc j)"
    using row len unfolding L'_def by (subst nth_remove_at) auto
  have "index_inv m'"
    unfolding index_inv_def
  proof (intro allI)
    fix w r
    have mu: "m_users m' = L'" and mi: "m_uidsToRows m' = idx'"
      by (simp_all add: m'_def emit_def)
    show "m_uidsToRows m' w = Some r \<longleftrightarrow>
       (0 \<le> r \<and> r < count (m_users m') \<and> isValid (m_users m' ! nat r)
        \<and> uid (m_users m' ! nat r) = w)"
      unfolding mu mi count_def
    proof
      assume "idx' w = Some r"
      then have wu: "w \<noteq> u" and ex: "\<exists>v. m_uidsToRows m w = Some v \<and> r = f v"
        by (auto simp: idx'_def split: if_splits)
      then obtain v where v: "m_uidsToRows m w = Some v" and rv: "r = f v" by blast
      from v inv have v0: "0 \<le> v" by simp
      define j where "j = nat v"
      have vj: "v = int j" using v0 by (simp add: j_def)
      from v invn have vv: "j < length L" "isValid (L ! j)" "uid (L ! j) = w"
        by (simp_all add: vj)
      with wu row have ji: "j \<noteq> i" by auto
      show "0 \<le> r \<and> r < int (length L') \<and> isValid (L' ! nat r) \<and> uid (L' ! nat r) = w"
      proof (cases "j < i")
        case True
        then have "r = int j" by (simp add: rv f_def vj ri)
        moreover have "j < length L'" using True row len by simp
        ultimately show ?thesis using True vv nth by simp
      next
        case False
        with ji obtain k where k: "j = Suc k" "i \<le> k" by (cases j) auto
        then have "r = int k" by (simp add: rv f_def vj ri)
        moreover have "k < length L'" using k vv len by simp
        ultimately show ?thesis using k vv nth by simp
      qed
    next
      assume rr: "0 \<le> r \<and> r < int (length L') \<and> isValid (L' ! nat r) \<and> uid (L' ! nat r) = w"
      define j where "j = nat r"
      have rj: "r = int j" using rr by (simp add: j_def)
      have jl: "j < length L'" using rr by (simp add: j_def nat_less_iff)
      have vu: "isValid (L' ! j)" "uid (L' ! j) = w" using rr by (simp_all add: j_def)
      show "idx' w = Some r"
      proof (cases "j < i")
        case True
        with vu nth jl have "isValid (L ! j)" "uid (L ! j) = w" by simp_all
        moreover have "j < length L" using jl len by simp
        ultimately have g: "m_uidsToRows m w = Some (int j)" using invn by simp
        with Some ri True have "w \<noteq> u" by auto
        with g True show ?thesis by (simp add: idx'_def f_def ri rj)
      next
        case False
        with vu nth jl have "isValid (L ! Suc j)" "uid (L ! Suc j) = w" by simp_all
        moreover have "Suc j < length L" using jl len by simp
        ultimately have g: "m_uidsToRows m w = Some (int (Suc j))" using invn by blast
        with Some ri False have "w \<noteq> u" by auto
        with g False show ?thesis by (simp add: idx'_def f_def ri rj)
      qed
    qed
  qed
  with res show ?thesis by blast
qed

lemma deliver_index_inv:
  assumes "index_inv m"
  shows "\<exists>m'. deliver b m = Some m' \<and> index_inv m'"
  using assms by (cases b) (auto simp: onUserAdded_index_inv onUserRemoved_index_inv)

lemma deliverAll_index_inv:
  "index_inv m \<Longrightarrow> \<exists>m'. deliverAll bs m = Some m' \<and> index_inv m'"
proof (induction bs arbitrary: m)
  case Nil
  then show ?case by simp
next
  case (Cons b bs)
  from deliver_index_inv [OF Cons.prems, of b]
  obtain m1 where m1: "deliver b m = Some m1" "index_inv m1" by blast
  from Cons.IH [OF m1(2)] m1(1) show ?case by simp
qed

text \<open>
  Claim C1. Let the index of a cache be the inverse of its rows restricted to the valid
  rows (\<open>index_inv\<close>: an invalid row, the placeholder, has no entry). Then every
  sequence of user-added and user-removed broadcasts is handled without a failure, and
  after each broadcast of the sequence the index is again that inverse. In particular a
  user-removed broadcast for a tracked uid removes the row the index names, removes the
  uid's entry, and decrements by one every other entry whose value is greater than the
  removed row, leaving the entries below it as they were.
\<close>

theorem broadcasts_keep_index_inverse:
  assumes "index_inv m"
  shows "(\<forall>n \<le> length bs. \<exists>m'. deliverAll (take n bs) m = Some m' \<and> index_inv m')
       \<and> (\<forall>u row. m_uidsToRows m u = Some row \<longrightarrow>
            (\<exists>m'. onUserRemoved u m = Some m'
               \<and> qv_remove row (m_users m) = Some (m_users m')
               \<and> m_uidsToRows m' u = None
               \<and> (\<forall>k. k \<noteq> u \<longrightarrow>
                    m_uidsToRows m' k =
                      map_option (\<lambda>v. if v > row then v - 1 else v) (m_uidsToRows m k))))"
proof (intro conjI allI impI)
  fix n
  show "\<exists>m'. deliverAll (take n bs) m = Some m' \<and> index_inv m'"
    using assms by (rule deliverAll_index_inv)
next
  fix u row
  assume tracked: "m_uidsToRows m u = Some row"
  with assms have "0 \<le> row" "row < count (m_users m)"
    by (simp_all add: index_inv_def)
  with tracked show "\<exists>m'. onUserRemoved u m = Some m'
       \<and> qv_remove row (m_users m) = Some (m_users m')
       \<and> m_uidsToRows m' u = None
       \<and> (\<forall>k. k \<noteq> u \<longrightarrow>
            m_uidsToRows m' k =
              map_option (\<lambda>v. if v > row then v - 1 else v) (m_uidsToRows m k))"
    by (simp add: onUserRemoved_def qv_remove_def emit_def)
qed

theorem broadcasts_keep_index_inverse_witness:
  "index_inv exampleCache3
   \<and> (\<exists>m'. deliverAll [UserRemoved 1000, UserAdded exampleOsCarol 1003, UserRemoved 1002]
             exampleCache3 = Some m' \<and> index_inv m')
   \<and> (\<exists>m'. onUserRemoved 1000 exampleCache3 = Some m'
          \<and> m_uidsToRows m' 1000 = None
          \<and> m_uidsToRows m' 1001 = Some 0
          \<and> m_uidsToRows m' 1002 = Some 1)"
proof -
  note t = broadcasts_keep_index_inverse [OF exampleCache3_index_inv,
      of "[UserRemoved 1000, UserAdded exampleOsCarol 1003, UserRemoved 1002]"]
  from t have "\<forall>n \<le> 3. \<exists>m'. deliverAll
      (take n [UserRemoved 1000, UserAdded exampleOsCarol 1003, UserRemoved 1002])
      exampleCache3 = Some m' \<and> index_inv m'"
    by simp
  then have "\<exists>m'. deliverAll
      (take 3 [UserRemoved 1000, UserAdded exampleOsCarol 1003, UserRemoved 1002])
      exampleCache3 = Some m' \<and> index_inv m'"
    by blast
  then have a: "\<exists>m'. deliverAll
      [UserRemoved 1000, UserAdded exampleOsCarol 1003, UserRemoved 1002]
      exampleCache3 = Some m' \<and> index_inv m'"
    by simp
  have i: "m_uidsToRows exampleCache3 1000 = Some 0"
    "m_uidsToRows exampleCache3 1001 = Some 1"
    "m_uidsToRows exampleCache3 1002 = Some 2"
    by (simp_all add: exampleCache3_def)
  from t i(1) obtain m' where m': "onUserRemoved 1000 exampleCache3 = Some m'"
    "m_uidsToRows m' 1000 = None"
    "\<forall>k. k \<noteq> 1000 \<longrightarrow> m_uidsToRows m' k =
        map_option (\<lambda>v. if v > 0 then v - 1 else v) (m_uidsToRows exampleCache3 k)"
    by blast
  from m'(3) i have "m_uidsToRows m' 1001 = Some 0" "m_uidsToRows m' 1002 = Some 1"
    by simp_all
  with m' a exampleCache3_index_inv show ?thesis by blast
qed

subsection \<open>The placeholder and the reply of add-user\<close>

text \<open>
  What holds of the placeholder rule on the other paths: every operation keeps "every
  row but the last is valid", and so does a successful reply of add-user whenever the
  record it builds from the reply's uid is valid.
\<close>

lemma setPlaceholder_placeholder_inv:
  assumes "placeholder_inv m"
  shows "placeholder_inv (setPlaceholder v m)"
proof (cases "placeholder m = v")
  case True
  then show ?thesis using assms by (simp add: setPlaceholder_def)
next
  case False
  show ?thesis
  proof (cases v)
    case True
    with False have np: "\<not> placeholder m" by simp
    have res: "m_users (setPlaceholder v m) = m_users m @ [UserInfo_placeholder]"
      using True np by (simp add: setPlaceholder_def Let_def emit_def)
    have "isValid (m_users m ! i)" if "i < length (m_users m)" for i
    proof (cases "Suc i < length (m_users m)")
      case True
      with assms show ?thesis by (simp add: placeholder_inv_def)
    next
      case False
      with that have "i = length (m_users m) - 1" "m_users m \<noteq> []" by auto
      with np show ?thesis by (simp add: placeholder_def count_def last_conv_nth)
    qed
    then show ?thesis unfolding placeholder_inv_def res by (simp add: nth_append)
  next
    case False
    with \<open>placeholder m \<noteq> v\<close> have pl: "placeholder m" by simp
    then have ne: "m_users m \<noteq> []" using placeholder_last by blast
    then have n: "nat (count (m_users m) - 1) = length (m_users m) - 1"
      by (simp add: count_def)
    have res: "m_users (setPlaceholder v m) = butlast (m_users m)"
      using False pl ne by (simp add: setPlaceholder_def Let_def emit_def n butlast_conv_take)
    show ?thesis using assms unfolding placeholder_inv_def res
      by (simp add: nth_butlast)
  qed
qed

lemma createUser_m_users: "m_users (createUser m) = m_users m"
  by (simp add: createUser_def Let_def asyncCall_def createInterface_def)

lemma insert_before_last_valid:
  assumes inv: "\<forall>i. Suc i < length L \<longrightarrow> isValid (L ! i)"
    and il: "i \<le> length L" and i1: "length L \<le> Suc i" and vx: "isValid x"
    and tail: "i = length L \<longrightarrow> (\<forall>j < length L. isValid (L ! j))"
  shows "\<forall>j. Suc j < length (take i L @ x # drop i L) \<longrightarrow> isValid ((take i L @ x # drop i L) ! j)"
proof (intro allI impI)
  fix j
  assume "Suc j < length (take i L @ x # drop i L)"
  then have jl: "j < length L" using il by simp
  consider "j < i" | "j = i" by (metis i1 jl less_Suc_eq less_le_trans not_less_iff_gr_or_eq)
  then show "isValid ((take i L @ x # drop i L) ! j)"
  proof cases
    case 1
    have "isValid (L ! j)"
    proof (cases "i = length L")
      case True
      with tail jl show ?thesis by simp
    next
      case False
      with il 1 have "Suc j < length L" by simp
      with inv show ?thesis by simp
    qed
    with 1 il show ?thesis by (simp add: nth_insert_at)
  next
    case 2
    with il vx show ?thesis by (simp add: nth_insert_at)
  qed
qed

lemma onUserAdded_placeholder_inv:
  assumes "placeholder_inv m"
  shows "placeholder_inv (onUserAdded os u m)"
proof (cases "m_uidsToRows m u \<noteq> None \<or> \<not> isValid (UserInfo_uid os u)")
  case True
  then show ?thesis using assms by (auto simp: onUserAdded_def Let_def)
next
  case False
  define L where "L = m_users m"
  define i where "i = (if placeholder m then length L - 1 else length L)"
  have row: "nat (if placeholder m then count (m_users m) - 1 else count (m_users m)) = i"
    by (auto simp: i_def L_def count_def placeholder_def Suc_le_eq)
  have res: "m_users (onUserAdded os u m) = take i L @ UserInfo_uid os u # drop i L"
    using False row by (simp add: onUserAdded_def Let_def emit_def L_def)
  have inv: "\<forall>i. Suc i < length L \<longrightarrow> isValid (L ! i)"
    using assms by (simp add: placeholder_inv_def L_def)
  have tail: "i = length L \<longrightarrow> (\<forall>j < length L. isValid (L ! j))"
  proof (intro impI allI)
    fix j
    assume e: "i = length L" and jl: "j < length L"
    then have np: "\<not> placeholder m" using placeholder_last [of m]
      by (auto simp: i_def L_def split: if_splits)
    show "isValid (L ! j)"
    proof (cases "Suc j < length L")
      case True
      with inv show ?thesis by simp
    next
      case False
      with jl have "j = length L - 1" "L \<noteq> []" by auto
      with np show ?thesis by (simp add: placeholder_def count_def last_conv_nth L_def)
    qed
  qed
  have "length L \<le> Suc (length L - 1)" by linarith
  then have "i \<le> length L" "length L \<le> Suc i" by (simp_all add: i_def)
  from insert_before_last_valid [OF inv this _ tail, of "UserInfo_uid os u"] False
  show ?thesis unfolding placeholder_inv_def res by simp
qed

lemma map_update_same:
  "f y = f (xs ! n) \<Longrightarrow> map f (xs[n := y]) = map f xs"
  by (metis list_update_id map_update)

lemma onUserModified_placeholder_inv:
  assumes "placeholder_inv m" and "onUserModified u newName m = Some m'"
  shows "placeholder_inv m'"
proof -
  have "map isValid (m_users m') = map isValid (m_users m)"
    using assms(2)
    by (auto simp: onUserModified_def Let_def emit_def setName_def map_update_same
        split: option.splits if_splits)
  then have "length (m_users m') = length (m_users m)"
    and "\<And>i. i < length (m_users m) \<Longrightarrow> isValid (m_users m' ! i) = isValid (m_users m ! i)"
    by (metis length_map, metis length_map nth_map)
  with assms(1) show ?thesis by (simp add: placeholder_inv_def)
qed

lemma onUserRemoved_placeholder_inv:
  assumes "placeholder_inv m" and "onUserRemoved u m = Some m'"
  shows "placeholder_inv m'"
proof (cases "m_uidsToRows m u")
  case None
  with assms show ?thesis by (simp add: onUserRemoved_def)
next
  case (Some row)
  define L where "L = m_users m"
  define i where "i = nat row"
  from assms(2) Some have rng: "0 \<le> row" "i < length L"
    and res: "m_users m' = take i L @ drop (Suc i) L"
    by (auto simp: onUserRemoved_def qv_remove_def count_def emit_def L_def i_def
        split: if_splits)
  have inv: "\<And>j. Suc j < length L \<Longrightarrow> isValid (L ! j)"
    using assms(1) by (simp add: placeholder_inv_def L_def)
  show ?thesis
    unfolding placeholder_inv_def res
  proof (intro allI impI)
    fix j
    assume "Suc j < length (take i L @ drop (Suc i) L)"
    with rng have j: "Suc (Suc j) < length L" by simp
    then have "(take i L @ drop (Suc i) L) ! j = (if j < i then L ! j else L ! Suc j)"
      using rng by (subst nth_remove_at) auto
    with j inv show "isValid ((take i L @ drop (Suc i) L) ! j)" by simp
  qed
qed

lemma reset_isValid: "map isValid (m_users (reset os row m)) = map isValid (m_users m)"
  by (simp add: reset_def Let_def emit_def UserInfo_reset_def map_update_same
      split: option.splits)

lemma reset_placeholder_inv:
  assumes "placeholder_inv m"
  shows "placeholder_inv (reset os row m)"
proof -
  have "length (m_users (reset os row m)) = length (m_users m)"
    and "\<And>i. i < length (m_users m) \<Longrightarrow>
          isValid (m_users (reset os row m) ! i) = isValid (m_users m ! i)"
    using reset_isValid [of os row m] by (metis length_map, metis length_map nth_map)
  with assms show ?thesis by (simp add: placeholder_inv_def)
qed

lemma userAddFinished_placeholder_inv:
  assumes "placeholder_inv m" and "userAddFinished env os reply m = Some m'"
    and "\<And>u. reply = ReplyValue u \<Longrightarrow> m_uidsToRows m u = None \<Longrightarrow> os u \<noteq> None"
  shows "placeholder_inv m'"
proof (cases reply)
  case (ReplyError e)
  with assms show ?thesis by (auto simp: userAddFinished_def emit_def placeholder_inv_def)
next
  case (ReplyValue u)
  show ?thesis
  proof (cases "m_uidsToRows m u")
    case (Some r)
    with ReplyValue assms(2) have "m' = reset os (count (m_users m) - 1) m"
      by (simp add: userAddFinished_def)
    with assms(1) show ?thesis by (simp add: reset_placeholder_inv)
  next
    case None
    with ReplyValue assms(3) have vx: "isValid (UserInfo_uid os u)"
      by (auto simp: UserInfo_uid_def split: option.splits)
    define L where "L = m_users m"
    define i where "i = length L - 1"
    from assms(2) ReplyValue None have ne: "L \<noteq> []"
      by (auto simp: userAddFinished_def qv_insert_def Let_def count_def L_def
          split: if_splits)
    then have n: "nat (count (m_users m) - 1) = i" "0 \<le> count (m_users m) - 1"
      "count (m_users m) - 1 \<le> count (m_users m)"
      by (simp_all add: count_def i_def L_def Suc_le_eq)
    define m1 where "m1 = emit (RowsInserted (count (m_users m) - 1) (count (m_users m) - 1))
        (m\<lparr>m_users := take i L @ UserInfo_uid os u # drop i L,
           m_uidsToRows := (m_uidsToRows m)(u \<mapsto> count (m_users m) - 1)\<rparr>)"
    have res: "m' = reset os (count (m_users m1) - 1) m1"
      using assms(2) ReplyValue None n
      by (simp add: userAddFinished_def qv_insert_def Let_def m1_def L_def)
    have inv: "\<forall>i. Suc i < length L \<longrightarrow> isValid (L ! i)"
      using assms(1) by (simp add: placeholder_inv_def L_def)
    have "0 < length L" using ne by simp
    then have "length L \<le> Suc (length L - 1)" "length L - 1 \<noteq> length L"
      by linarith+
    then have "i \<le> length L" "length L \<le> Suc i"
      "i = length L \<longrightarrow> (\<forall>j < length L. isValid (L ! j))"
      by (simp_all add: i_def)
    from insert_before_last_valid [OF inv this(1,2) vx this(3)]
    have "placeholder_inv m1" by (simp add: placeholder_inv_def m1_def emit_def)
    then show ?thesis unfolding res by (rule reset_placeholder_inv)
  qed
qed

text \<open>
  Claim C2, the code at the input where it fails. The cache holds alice, bob and the
  placeholder named "carol"; \<open>createUser\<close> is called and the reply of add-user carries
  uid 1002 while the identity lookup has no account 1002 and no broadcast has
  tracked it. \<open>userAddFinished\<close> inserts the record it builds from the uid without
  asking whether it is valid (as \<open>onUserAdded\<close> does): the cache then holds two invalid
  rows, rows 2 and 3, and the first of them is not the last row.
\<close>

theorem userAddFinished_unknown_uid_two_invalid_rows:
  "map_option (map isValid \<circ> m_users)
     (userAddFinished exampleEnv exampleOs (ReplyValue 1002)
        (createUser exampleNamedPlaceholder))
   = Some [True, True, False, False]"
  by code_simp

text \<open>
  Claim C3 as stated fails: after the reply the cache of the scenario holds four rows,
  and the last of them is invalid.
\<close>

theorem createUser_commit_counterexample:
  "map_option (count \<circ> m_users)
     (userAddFinished exampleEnv exampleOsCarol (ReplyValue 1002)
        (createUser exampleNamedPlaceholder)) = Some 4
   \<and> map_option (map isValid \<circ> m_users)
     (userAddFinished exampleEnv exampleOsCarol (ReplyValue 1002)
        (createUser exampleNamedPlaceholder)) = Some [True, True, True, False]
   \<and> map_option (count \<circ> m_users)
     (userAddFinished exampleEnv exampleOsCarol (ReplyValue 1002)
        (createUser exampleNamedPlaceholder)) \<noteq> Some 3"
  by code_simp

text \<open>
  Claim C3, amended. From a cache of two committed users \<open>a\<close> and \<open>b\<close> and a placeholder
  \<open>p\<close> with a non-empty name, \<open>createUser\<close> issues add-user with the placeholder's name;
  when the call succeeds with a uid that is not tracked and that the identity lookup
  knows, the cache ends with exactly four rows: the two originals, the new committed
  user at row 2 (with its index entry), and the placeholder, still the last row and
  still invalid, with its name cleared. Three rows are valid and one is not.
\<close>

theorem createUser_commit_keeps_placeholder:
  assumes "m_users m = [a, b, p]" and "isValid a" and "isValid b" and "\<not> isValid p"
    and "name p \<noteq> []" and "m_uidsToRows m u = None" and "os u = Some e"
  shows "issued (createUser m) = issued m @ [AddUserCall (name p)]
       \<and> (\<exists>m'. userAddFinished env os (ReplyValue u) (createUser m) = Some m'
              \<and> m_users m' = [a, b, UserInfo_uid os u, p\<lparr>name := []\<rparr>]
              \<and> isValid (UserInfo_uid os u) \<and> uid (UserInfo_uid os u) = u
              \<and> count (m_users m') = 4
              \<and> map isValid (m_users m') = [True, True, True, False]
              \<and> m_uidsToRows m' = (m_uidsToRows m)(u \<mapsto> 2))"
  using assms
  by (simp add: createUser_def placeholder_def count_def asyncCall_def createInterface_def
      userAddFinished_def qv_insert_def emit_def reset_def index_def Let_def UserInfo_reset_def
      UserInfo_uid_def)

theorem createUser_commit_keeps_placeholder_witness:
  "m_users exampleNamedPlaceholder = [alice, bob, UserInfo_placeholder\<lparr>name := ''carol''\<rparr>]
   \<and> isValid alice \<and> isValid bob \<and> \<not> isValid (UserInfo_placeholder\<lparr>name := ''carol''\<rparr>)
   \<and> m_uidsToRows exampleNamedPlaceholder 1002 = None
   \<and> issued (createUser exampleNamedPlaceholder) = [AddUserCall ''carol'']
   \<and> (\<exists>m'. userAddFinished exampleEnv exampleOsCarol (ReplyValue 1002)
               (createUser exampleNamedPlaceholder) = Some m'
          \<and> m_users m' = [alice, bob, carol, UserInfo_placeholder]
          \<and> m_uidsToRows m' 1002 = Some 2)"
proof -
  have h: "m_users exampleNamedPlaceholder = [alice, bob, UserInfo_placeholder\<lparr>name := ''carol''\<rparr>]"
    "isValid alice" "isValid bob" "\<not> isValid (UserInfo_placeholder\<lparr>name := ''carol''\<rparr>)"
    "name (UserInfo_placeholder\<lparr>name := ''carol''\<rparr>) \<noteq> []"
    "m_uidsToRows exampleNamedPlaceholder 1002 = None"
    "exampleOsCarol 1002 = Some \<lparr>pwUsername = ''carol'', pwName = ''carol'', pwType = 0\<rparr>"
    by (simp_all add: exampleNamedPlaceholder_eq alice_def bob_def UserInfo_placeholder_def
        exampleOsCarol_def)
  have c: "UserInfo_uid exampleOsCarol 1002 = carol"
    "UserInfo_placeholder\<lparr>name := ''carol'', name := []\<rparr> = UserInfo_placeholder"
    "issued exampleNamedPlaceholder = []"
    by (simp_all add: UserInfo_uid_def exampleOsCarol_def carol_def UserInfo_placeholder_def
        exampleNamedPlaceholder_eq)
  from createUser_commit_keeps_placeholder [where m = exampleNamedPlaceholder
      and os = exampleOsCarol and u = 1002 and env = exampleEnv, OF h] c h
  show ?thesis by auto
qed

text \<open>
  Claim C4. Let the cache have its placeholder, and let a user-added broadcast for uid
  \<open>u\<close> be handled while the identity lookup knows \<open>u\<close> (or while \<open>u\<close> is tracked
  already), so that \<open>u\<close> is tracked afterwards. When the success reply of add-user
  with the same \<open>u\<close> is handled next, it inserts no row: the number of rows, the uids of
  the rows and the index are what they were before the reply, every row but the last
  is unchanged, and the last row, the placeholder, is the same record with its name
  cleared.
\<close>

theorem userAddFinished_after_broadcast:
  assumes "placeholder m" and "os u \<noteq> None \<or> m_uidsToRows m u \<noteq> None"
    and "m1 = onUserAdded os u m"
  shows "m_uidsToRows m1 u \<noteq> None
       \<and> (\<exists>m2. userAddFinished env os' (ReplyValue u) m1 = Some m2
              \<and> length (m_users m2) = length (m_users m1)
              \<and> map uid (m_users m2) = map uid (m_users m1)
              \<and> m_uidsToRows m2 = m_uidsToRows m1
              \<and> butlast (m_users m2) = butlast (m_users m1)
              \<and> \<not> isValid (last (m_users m1))
              \<and> last (m_users m2) = (last (m_users m1))\<lparr>name := []\<rparr>)"
proof -
  from assms(1) have ne: "m_users m \<noteq> []" and inv: "\<not> isValid (last (m_users m))"
    using placeholder_last by auto
  define L where "L = butlast (m_users m)"
  define p where "p = last (m_users m)"
  have mu: "m_users m = L @ [p]" using ne by (simp add: L_def p_def)
  have tracked: "m_uidsToRows m1 u \<noteq> None"
    using assms(2,3)
    by (auto simp: onUserAdded_def Let_def UserInfo_uid_def emit_def split: option.splits)
  have "\<exists>L1. m_users m1 = L1 @ [p]"
    using assms(1) mu inv
    by (auto simp: assms(3) onUserAdded_def Let_def emit_def count_def)
  then obtain L1 where m1: "m_users m1 = L1 @ [p]" by blast
  have np: "\<not> isValid p" using inv by (simp add: p_def)
  have "userAddFinished env os' (ReplyValue u) m1 = Some (reset os' (count (m_users m1) - 1) m1)"
    using tracked by (auto simp: userAddFinished_def)
  moreover have "m_users (reset os' (count (m_users m1) - 1) m1) = L1 @ [p\<lparr>name := []\<rparr>]"
    using np by (simp add: reset_def m1 count_def Let_def emit_def UserInfo_reset_def nth_append)
  moreover have "m_uidsToRows (reset os' (count (m_users m1) - 1) m1) = m_uidsToRows m1"
    by (simp add: reset_def Let_def emit_def)
  ultimately show ?thesis using tracked m1 np by simp
qed

theorem userAddFinished_after_broadcast_witness:
  "placeholder exampleNamedPlaceholder
   \<and> exampleOsCarol 1002 \<noteq> None
   \<and> m_users (onUserAdded exampleOsCarol 1002 exampleNamedPlaceholder)
       = [alice, bob, carol, UserInfo_placeholder\<lparr>name := ''carol''\<rparr>]
   \<and> (\<exists>m2. userAddFinished exampleEnv exampleOsCarol (ReplyValue 1002)
               (onUserAdded exampleOsCarol 1002 exampleNamedPlaceholder) = Some m2
          \<and> length (m_users m2) = 4
          \<and> map uid (m_users m2) = [1000, 1001, 1002, 0]
          \<and> butlast (m_users m2) = [alice, bob, carol]
          \<and> last (m_users m2) = UserInfo_placeholder)"
proof -
  have p: "placeholder exampleNamedPlaceholder"
    by (simp add: exampleNamedPlaceholder_eq placeholder_def count_def UserInfo_placeholder_def)
  have k: "exampleOsCarol 1002 \<noteq> None \<or> m_uidsToRows exampleNamedPlaceholder 1002 \<noteq> None"
    by (simp add: exampleOsCarol_def)
  have c: "UserInfo_uid exampleOsCarol 1002 = carol"
    by (simp add: UserInfo_uid_def exampleOsCarol_def carol_def)
  have m1: "m_users (onUserAdded exampleOsCarol 1002 exampleNamedPlaceholder)
       = [alice, bob, carol, UserInfo_placeholder\<lparr>name := ''carol''\<rparr>]"
    using p by (simp add: onUserAdded_def c Let_def emit_def)
      (simp add: exampleNamedPlaceholder_eq count_def carol_def)
  from userAddFinished_after_broadcast [where m = exampleNamedPlaceholder
      and os = exampleOsCarol and u = 1002 and env = exampleEnv and os' = exampleOsCarol,
      OF p k refl] m1 p k
  show ?thesis
    by (auto simp: alice_def bob_def carol_def UserInfo_placeholder_def exampleOsCarol_def)
qed

subsection \<open>Renaming a row\<close>




subsection \<open>Removing a user\<close>

text \<open>
  Claim C7. \<open>removeUser\<close> on a valid row in range issues remove-user for the row's uid
  (the call carries the row for its reply) and changes neither the rows nor the index,
  and emits nothing. The reply changes neither of them in whatever state it is handled:
  a success changes nothing at all, an error only signals the failure for the row with
  the classified error. The row leaves the cache when the user-removed broadcast for its
  uid is handled: where the index maps the uid to the row, the broadcast removes that
  row.
\<close>

theorem removeUser_waits_for_broadcast:
  assumes "0 \<le> row" and "row < count (m_users m)" and "isValid (m_users m ! nat row)"
  shows "issued (removeUser row m) = issued m @ [RemoveUserCall (uid (m_users m ! nat row)) row]
       \<and> m_users (removeUser row m) = m_users m
       \<and> m_uidsToRows (removeUser row m) = m_uidsToRows m
       \<and> emitted (removeUser row m) = emitted m
       \<and> userRemoveFinished env (ReplyValue ()) row m' = m'
       \<and> m_users (userRemoveFinished env (ReplyError e) row m') = m_users m'
       \<and> m_uidsToRows (userRemoveFinished env (ReplyError e) row m') = m_uidsToRows m'
       \<and> emitted (userRemoveFinished env (ReplyError e) row m')
           = emitted m' @ [UserRemoveFailedSignal row (getErrorType env e)]
       \<and> issued (userRemoveFinished env (ReplyError e) row m') = issued m'
       \<and> (m_uidsToRows m (uid (m_users m ! nat row)) = Some row \<longrightarrow>
            map_option m_users (onUserRemoved (uid (m_users m ! nat row)) (removeUser row m))
              = Some (take (nat row) (m_users m) @ drop (Suc (nat row)) (m_users m)))"
  using assms
  by (simp add: removeUser_def userRemoveFinished_def asyncCall_def createInterface_def
      emit_def Let_def onUserRemoved_def qv_remove_def)

theorem removeUser_waits_for_broadcast_witness:
  "m_users (removeUser 0 exampleCache) = [alice, bob]
   \<and> issued (removeUser 0 exampleCache) = [RemoveUserCall 1000 0]
   \<and> userRemoveFinished exampleEnv (ReplyValue ()) 0 (removeUser 0 exampleCache)
       = removeUser 0 exampleCache
   \<and> m_users (userRemoveFinished exampleEnv
         (ReplyError \<lparr>errType = 1, errName = ''UserRemoveFailed''\<rparr>) 0
         (removeUser 0 exampleCache)) = [alice, bob]
   \<and> emitted (userRemoveFinished exampleEnv
         (ReplyError \<lparr>errType = 1, errName = ''UserRemoveFailed''\<rparr>) 0
         (removeUser 0 exampleCache)) = [UserRemoveFailedSignal 0 106]
   \<and> map_option m_users (onUserRemoved 1000 (removeUser 0 exampleCache)) = Some [bob]"
proof -
  have h: "(0::int) \<le> 0" "0 < count (m_users exampleCache)"
    "isValid (m_users exampleCache ! nat 0)"
    by (simp_all add: exampleCache_def count_def alice_def)
  have g: "getErrorType exampleEnv \<lparr>errType = 1, errName = ''UserRemoveFailed''\<rparr> = 106"
    by (simp add: getErrorType_def errorTypeMap_def errorTypeEntries_def exampleEnv_def)
  have x: "m_users exampleCache = [alice, bob]" "emitted exampleCache = []"
    "issued exampleCache = []" "uid alice = 1000" "m_uidsToRows exampleCache 1000 = Some 0"
    by (simp_all add: exampleCache_def alice_def)
  from removeUser_waits_for_broadcast [OF h, of exampleEnv "removeUser 0 exampleCache"
      "\<lparr>errType = 1, errName = ''UserRemoveFailed''\<rparr>"]
  show ?thesis by (simp add: g x)
qed

text \<open>
  Claim C8. Handling the same user-removed broadcast twice gives the state that handling
  it once gives. Where the index is the inverse of the rows the first delivery does not
  fail; whenever the first delivery returns a state, the uid is not tracked in it (its
  row, if it was tracked, is removed), and the second delivery returns that same state:
  rows, index and both logs unchanged.
\<close>

theorem onUserRemoved_idempotent:
  "(index_inv m \<longrightarrow> onUserRemoved u m \<noteq> None)
   \<and> (\<forall>m1. onUserRemoved u m = Some m1 \<longrightarrow>
          onUserRemoved u m1 = Some m1 \<and> m_uidsToRows m1 u = None
          \<and> (\<forall>r. m_uidsToRows m u = Some r \<longrightarrow> qv_remove r (m_users m) = Some (m_users m1)))"
  by (auto simp: onUserRemoved_def index_inv_def qv_remove_def emit_def
      split: option.splits if_splits)

theorem onUserRemoved_idempotent_witness:
  "index_inv exampleCache3
   \<and> (\<exists>m1. onUserRemoved 1000 exampleCache3 = Some m1
          \<and> onUserRemoved 1000 m1 = Some m1
          \<and> m_uidsToRows m1 1000 = None
          \<and> m_users m1 = [bob, carol])"
proof -
  note t = onUserRemoved_idempotent [of exampleCache3 1000]
  from t exampleCache3_index_inv obtain m1 where m1: "onUserRemoved 1000 exampleCache3 = Some m1"
    by blast
  with t have a: "onUserRemoved 1000 m1 = Some m1" "m_uidsToRows m1 1000 = None"
    "\<forall>r. m_uidsToRows exampleCache3 1000 = Some r
         \<longrightarrow> qv_remove r (m_users exampleCache3) = Some (m_users m1)"
    by blast+
  have "m_uidsToRows exampleCache3 1000 = Some 0" by (simp add: exampleCache3_def)
  with a(3) have "qv_remove 0 (m_users exampleCache3) = Some (m_users m1)" by blast
  then have "m_users m1 = [bob, carol]"
    by (simp add: qv_remove_def exampleCache3_def count_def)
  with m1 a exampleCache3_index_inv show ?thesis by blast
qed

subsection \<open>The error classifier\<close>

lemma fold_upd_notin:
  "x \<notin> f ` set ks \<Longrightarrow> fold (\<lambda>k m. m(f k \<mapsto> g k)) ks m0 x = m0 x"
  by (induction ks rule: rev_induct) auto

lemma fold_upd_in:
  "distinct (map f ks) \<Longrightarrow> k \<in> set ks \<Longrightarrow>
   fold (\<lambda>k m. m(f k \<mapsto> g k)) ks m0 (f k) = Some (g k)"
  by (induction ks rule: rev_induct) (auto simp: image_iff)

lemma getErrorType_table:
  assumes "distinct (map (errorName env) errorTypeEntries)"
  shows "(errType e \<noteq> dbusOther env \<longrightarrow> getErrorType env e = errType e)
       \<and> (\<forall>k \<in> set errorTypeEntries.
             errType e = dbusOther env \<and> errName e = errorName env k
             \<longrightarrow> getErrorType env e = errorValue env k)
       \<and> (errType e = dbusOther env \<and> errName e \<notin> errorName env ` set errorTypeEntries
             \<longrightarrow> getErrorType env e = errorValue env OtherError)"
  using assms
  by (auto simp: getErrorType_def errorTypeMap_def fold_upd_in fold_upd_notin)

text \<open>
  Claim C9. Where the eleven error names of the daemon are pairwise distinct,
  \<open>getErrorType\<close> returns the transport's own error code for every error whose type is
  not \<^verbatim>\<open>QDBusError::Other\<close>. For an error of type \<^verbatim>\<open>Other\<close> it returns the value
  of \<open>Busy\<close> under the name of Busy, of \<open>HomeCreateFailed\<close> under the name of
  HomeCreateFailed, and so on for HomeRemoveFailed, GroupCreateFailed, UserAddFailed,
  UserModifyFailed, UserRemoveFailed, GetUidFailed, UserNotFound, AddToGroupFailed and
  RemoveFromGroupFailed, each named in the statement; under any name that is none of
  the eleven it returns the value of \<open>OtherError\<close>.
\<close>

theorem getErrorType_classifies:
  assumes "distinct (map (errorName env)
             [Busy, HomeCreateFailed, HomeRemoveFailed, GroupCreateFailed, UserAddFailed,
              UserModifyFailed, UserRemoveFailed, GetUidFailed, UserNotFound,
              AddToGroupFailed, RemoveFromGroupFailed])"
  shows "(errType e \<noteq> dbusOther env \<longrightarrow> getErrorType env e = errType e)
       \<and> (errType e = dbusOther env \<longrightarrow>
            (errName e = errorName env Busy
               \<longrightarrow> getErrorType env e = errorValue env Busy)
          \<and> (errName e = errorName env HomeCreateFailed
               \<longrightarrow> getErrorType env e = errorValue env HomeCreateFailed)
          \<and> (errName e = errorName env HomeRemoveFailed
               \<longrightarrow> getErrorType env e = errorValue env HomeRemoveFailed)
          \<and> (errName e = errorName env GroupCreateFailed
               \<longrightarrow> getErrorType env e = errorValue env GroupCreateFailed)
          \<and> (errName e = errorName env UserAddFailed
               \<longrightarrow> getErrorType env e = errorValue env UserAddFailed)
          \<and> (errName e = errorName env UserModifyFailed
               \<longrightarrow> getErrorType env e = errorValue env UserModifyFailed)
          \<and> (errName e = errorName env UserRemoveFailed
               \<longrightarrow> getErrorType env e = errorValue env UserRemoveFailed)
          \<and> (errName e = errorName env GetUidFailed
               \<longrightarrow> getErrorType env e = errorValue env GetUidFailed)
          \<and> (errName e = errorName env UserNotFound
               \<longrightarrow> getErrorType env e = errorValue env UserNotFound)
          \<and> (errName e = errorName env AddToGroupFailed
               \<longrightarrow> getErrorType env e = errorValue env AddToGroupFailed)
          \<and> (errName e = errorName env RemoveFromGroupFailed
               \<longrightarrow> getErrorType env e = errorValue env RemoveFromGroupFailed)
          \<and> (errName e \<notin> {errorName env Busy, errorName env HomeCreateFailed,
                            errorName env HomeRemoveFailed, errorName env GroupCreateFailed,
                            errorName env UserAddFailed, errorName env UserModifyFailed,
                            errorName env UserRemoveFailed, errorName env GetUidFailed,
                            errorName env UserNotFound, errorName env AddToGroupFailed,
                            errorName env RemoveFromGroupFailed}
               \<longrightarrow> getErrorType env e = errorValue env OtherError))"
proof -
  have d: "distinct (map (errorName env) errorTypeEntries)"
    using assms by (simp only: errorTypeEntries_def)
  have s: "set errorTypeEntries =
      {Busy, HomeCreateFailed, HomeRemoveFailed, GroupCreateFailed, UserAddFailed,
       UserModifyFailed, UserRemoveFailed, GetUidFailed, UserNotFound, AddToGroupFailed,
       RemoveFromGroupFailed}"
    by (simp add: errorTypeEntries_def)
  note t = getErrorType_table [OF d, of e, unfolded s]
  from t have pass: "errType e \<noteq> dbusOther env \<longrightarrow> getErrorType env e = errType e"
    by blast
  from t have each: "\<And>k. k \<in> {Busy, HomeCreateFailed, HomeRemoveFailed, GroupCreateFailed,
         UserAddFailed, UserModifyFailed, UserRemoveFailed, GetUidFailed, UserNotFound,
         AddToGroupFailed, RemoveFromGroupFailed}
       \<Longrightarrow> errType e = dbusOther env \<Longrightarrow> errName e = errorName env k
       \<Longrightarrow> getErrorType env e = errorValue env k"
    by blast
  from t have other: "errType e = dbusOther env \<Longrightarrow>
       errName e \<notin> errorName env ` {Busy, HomeCreateFailed, HomeRemoveFailed,
         GroupCreateFailed, UserAddFailed, UserModifyFailed, UserRemoveFailed, GetUidFailed,
         UserNotFound, AddToGroupFailed, RemoveFromGroupFailed}
       \<Longrightarrow> getErrorType env e = errorValue env OtherError"
    by blast
  show ?thesis
  proof (intro conjI impI)
    show "errType e \<noteq> dbusOther env \<Longrightarrow> getErrorType env e = errType e"
      using pass by blast
  next
    assume "errType e = dbusOther env"
      and "errName e \<notin> {errorName env Busy, errorName env HomeCreateFailed,
                            errorName env HomeRemoveFailed, errorName env GroupCreateFailed,
                            errorName env UserAddFailed, errorName env UserModifyFailed,
                            errorName env UserRemoveFailed, errorName env GetUidFailed,
                            errorName env UserNotFound, errorName env AddToGroupFailed,
                            errorName env RemoveFromGroupFailed}"
    then show "getErrorType env e = errorValue env OtherError"
      by (intro other) simp_all
  qed (rule each, simp, assumption, assumption)+
qed

theorem getErrorType_classifies_witness:
  "distinct (map (errorName exampleEnv)
      [Busy, HomeCreateFailed, HomeRemoveFailed, GroupCreateFailed, UserAddFailed,
       UserModifyFailed, UserRemoveFailed, GetUidFailed, UserNotFound,
       AddToGroupFailed, RemoveFromGroupFailed])
   \<and> getErrorType exampleEnv \<lparr>errType = 1, errName = ''Busy''\<rparr> = 100
   \<and> getErrorType exampleEnv \<lparr>errType = 1, errName = ''HomeCreateFailed''\<rparr> = 101
   \<and> getErrorType exampleEnv \<lparr>errType = 1, errName = ''HomeRemoveFailed''\<rparr> = 102
   \<and> getErrorType exampleEnv \<lparr>errType = 1, errName = ''GroupCreateFailed''\<rparr> = 103
   \<and> getErrorType exampleEnv \<lparr>errType = 1, errName = ''UserAddFailed''\<rparr> = 104
   \<and> getErrorType exampleEnv \<lparr>errType = 1, errName = ''UserModifyFailed''\<rparr> = 105
   \<and> getErrorType exampleEnv \<lparr>errType = 1, errName = ''UserRemoveFailed''\<rparr> = 106
   \<and> getErrorType exampleEnv \<lparr>errType = 1, errName = ''GetUidFailed''\<rparr> = 107
   \<and> getErrorType exampleEnv \<lparr>errType = 1, errName = ''UserNotFound''\<rparr> = 108
   \<and> getErrorType exampleEnv \<lparr>errType = 1, errName = ''AddToGroupFailed''\<rparr> = 109
   \<and> getErrorType exampleEnv \<lparr>errType = 1, errName = ''RemoveFromGroupFailed''\<rparr> = 110
   \<and> getErrorType exampleEnv \<lparr>errType = 1, errName = ''NoSuchName''\<rparr> = 99
   \<and> getErrorType exampleEnv \<lparr>errType = 4, errName = ''Busy''\<rparr> = 4"
proof -
  have d: "distinct (map (errorName exampleEnv)
      [Busy, HomeCreateFailed, HomeRemoveFailed, GroupCreateFailed, UserAddFailed,
       UserModifyFailed, UserRemoveFailed, GetUidFailed, UserNotFound,
       AddToGroupFailed, RemoveFromGroupFailed])"
    by (simp add: exampleEnv_def)
  note t = getErrorType_classifies [OF d]
  have "getErrorType exampleEnv \<lparr>errType = 1, errName = ''Busy''\<rparr> = 100"
    using t [of "\<lparr>errType = 1, errName = ''Busy''\<rparr>"] by (simp add: exampleEnv_def)
  moreover have "getErrorType exampleEnv \<lparr>errType = 1, errName = ''HomeCreateFailed''\<rparr> = 101"
    using t [of "\<lparr>errType = 1, errName = ''HomeCreateFailed''\<rparr>"] by (simp add: exampleEnv_def)
  moreover have "getErrorType exampleEnv \<lparr>errType = 1, errName = ''HomeRemoveFailed''\<rparr> = 102"
    using t [of "\<lparr>errType = 1, errName = ''HomeRemoveFailed''\<rparr>"] by (simp add: exampleEnv_def)
  moreover have "getErrorType exampleEnv \<lparr>errType = 1, errName = ''GroupCreateFailed''\<rparr> = 103"
    using t [of "\<lparr>errType = 1, errName = ''GroupCreateFailed''\<rparr>"] by (simp add: exampleEnv_def)
  moreover have "getErrorType exampleEnv \<lparr>errType = 1, errName = ''UserAddFailed''\<rparr> = 104"
    using t [of "\<lparr>errType = 1, errName = ''UserAddFailed''\<rparr>"] by (simp add: exampleEnv_def)
  moreover have "getErrorType exampleEnv \<lparr>errType = 1, errName = ''UserModifyFailed''\<rparr> = 105"
    using t [of "\<lparr>errType = 1, errName = ''UserModifyFailed''\<rparr>"] by (simp add: exampleEnv_def)
  moreover have "getErrorType exampleEnv \<lparr>errType = 1, errName = ''UserRemoveFailed''\<rparr> = 106"
    using t [of "\<lparr>errType = 1, errName = ''UserRemoveFailed''\<rparr>"] by (simp add: exampleEnv_def)
  moreover have "getErrorType exampleEnv \<lparr>errType = 1, errName = ''GetUidFailed''\<rparr> = 107"
    using t [of "\<lparr>errType = 1, errName = ''GetUidFailed''\<rparr>"] by (simp add: exampleEnv_def)
  moreover have "getErrorType exampleEnv \<lparr>errType = 1, errName = ''UserNotFound''\<rparr> = 108"
    using t [of "\<lparr>errType = 1, errName = ''UserNotFound''\<rparr>"] by (simp add: exampleEnv_def)
  moreover have "getErrorType exampleEnv \<lparr>errType = 1, errName = ''AddToGroupFailed''\<rparr> = 109"
    using t [of "\<lparr>errType = 1, errName = ''AddToGroupFailed''\<rparr>"] by (simp add: exampleEnv_def)
  moreover have "getErrorType exampleEnv \<lparr>errType = 1, errName = ''RemoveFromGroupFailed''\<rparr> = 110"
    using t [of "\<lparr>errType = 1, errName = ''RemoveFromGroupFailed''\<rparr>"]
    by (simp add: exampleEnv_def)
  moreover have "getErrorType exampleEnv \<lparr>errType = 1, errName = ''NoSuchName''\<rparr> = 99"
    using t [of "\<lparr>errType = 1, errName = ''NoSuchName''\<rparr>"] by (simp add: exampleEnv_def)
  moreover have "getErrorType exampleEnv \<lparr>errType = 4, errName = ''Busy''\<rparr> = 4"
    using t [of "\<lparr>errType = 4, errName = ''Busy''\<rparr>"] by (simp add: exampleEnv_def)
  ultimately show ?thesis using d by simp
qed

subsection \<open>setData: the calls without effect\<close>

text \<open>
  Claim C5. For every row in range, \<open>setData\<close> on the name role with the empty string,
  or with the name the row has, returns false and leaves the whole state as it was:
  no row changes, no call is issued and no signal is emitted (both logs are fields of
  the state).
\<close>

theorem setData_same_or_empty_name:
  assumes "0 \<le> row" and "row < count (m_users m)"
    and "v = [] \<or> v = name (m_users m ! nat row)"
  shows "setData (row, column) v NameRole m = (False, m)"
  using assms by (auto simp: setData_def)

theorem setData_same_or_empty_name_witness:
  "setData (1, 0) ''Bob'' NameRole exampleCache = (False, exampleCache)
   \<and> setData (1, 0) [] NameRole exampleCache = (False, exampleCache)"
proof -
  have r: "(0::int) \<le> 1" "1 < count (m_users exampleCache)"
    by (simp_all add: exampleCache_def count_def)
  have n: "name (m_users exampleCache ! nat 1) = ''Bob''"
    by (simp add: exampleCache_def bob_def)
  show ?thesis
    using setData_same_or_empty_name [OF r, of "''Bob''" 0]
      setData_same_or_empty_name [OF r, of "[]" 0] n
    by simp
qed

text \<open>
  Claim C10. \<open>setData\<close> on any role other than the name role (the six other roles of
  \<open>roleNames\<close> and every unknown role), with any value, and \<open>setData\<close> on a row out
  of range or on a column other than 0, returns false and leaves the whole state as it
  was: no row changes, no call is issued and no signal is emitted.
\<close>

theorem setData_other_role_or_out_of_range:
  "(role \<noteq> NameRole \<longrightarrow> setData idx v role m = (False, m))
   \<and> (fst idx < 0 \<or> fst idx \<ge> count (m_users m) \<or> snd idx \<noteq> 0
        \<longrightarrow> setData idx v role m = (False, m))"
  by (cases role) (auto simp: setData_def)

theorem setData_other_role_or_out_of_range_witness:
  "setData (0, 0) ''Eve'' UidRole exampleCache = (False, exampleCache)
   \<and> setData (0, 0) ''Eve'' (UnknownRole 77) exampleCache = (False, exampleCache)
   \<and> setData (2, 0) ''Eve'' NameRole exampleCache = (False, exampleCache)
   \<and> setData (- 1, 0) ''Eve'' NameRole exampleCache = (False, exampleCache)
   \<and> setData (0, 1) ''Eve'' NameRole exampleCache = (False, exampleCache)"
  using setData_other_role_or_out_of_range [of UidRole "(0, 0)" "''Eve''" exampleCache]
    setData_other_role_or_out_of_range [of "UnknownRole 77" "(0, 0)" "''Eve''" exampleCache]
    setData_other_role_or_out_of_range [of NameRole "(2, 0)" "''Eve''" exampleCache]
    setData_other_role_or_out_of_range [of NameRole "(- 1, 0)" "''Eve''" exampleCache]
    setData_other_role_or_out_of_range [of NameRole "(0, 1)" "''Eve''" exampleCache]
  by (simp add: exampleCache_def count_def)

end
